theory Spec2Isabelle
  imports Main "HOL-Library.Word" "HOL-Library.Multiset"
begin

section \<open>EnergyMaintenanceFHE: the batch ledger and the decryption bridge\<close>

text \<open>
  A shallow embedding of the contract \<open>EnergyMaintenanceFHE\<close>. Every external function
  is a HOL function from the storage before the call (plus \<open>msg.sender\<close>,
  \<open>block.timestamp\<close> and the arguments) to either the error the call reverts with or
  the storage after it. A reverted call changes nothing, so an error carries no state.
\<close>

subsection \<open>Value types\<close>

type_synonym address = "160 word"
type_synonym uint256 = "256 word"
type_synonym uint32 = "32 word"
type_synonym bytes32 = "256 word"
type_synonym bytes = "8 word list"

text \<open>
  Solidity 0.8 arithmetic on \<open>uint256\<close> is checked: \<open>a + b\<close> and \<open>x++\<close> panic
  instead of wrapping.
\<close>

definition checked_add :: "uint256 \<Rightarrow> uint256 \<Rightarrow> uint256 option" where
  "checked_add a b = (if unat a + unat b < 2 ^ 256 then Some (a + b) else None)"

subsection \<open>The encrypted-arithmetic library\<close>

text \<open>
  Modelled from the spec: the library \<open>FHE\<close> (\<open>@fhevm/solidity/lib/FHE.sol\<close>) is
  imported by the contract and is not part of the sources. The spec lists its operations
  as \<open>Constant\<close>, \<open>Add\<close>, \<open>GreaterOrEqual\<close> and
  \<open>Select(BoolHandle, Handle, Handle)\<close>, used as
  \<open>Select(GreaterOrEqual(t, m), t, m)\<close>: the first argument of \<open>Select\<close> is the
  condition, the second the result when it holds, the third the result otherwise.

  A ciphertext is represented by what it decrypts to. Encrypted integers and encrypted
  booleans are handles of one underlying kind, so one datatype carries both; where an
  operation is handed the other kind it reads it through the library's casts (an
  encrypted boolean as 0 or 1, an encrypted integer as true when it is not 0).
\<close>

datatype cipher = EUint32 uint32 | EBool bool

fun clear :: "cipher \<Rightarrow> uint32" where
  "clear (EUint32 w) = w"
| "clear (EBool b) = (if b then 1 else 0)"

fun truth :: "cipher \<Rightarrow> bool" where
  "truth (EBool b) = b"
| "truth (EUint32 w) = (w \<noteq> 0)"

definition FHE_asEuint32 :: "uint32 \<Rightarrow> cipher" where
  "FHE_asEuint32 v = EUint32 v"

definition FHE_add :: "cipher \<Rightarrow> cipher \<Rightarrow> cipher" where
  "FHE_add a b = EUint32 (clear a + clear b)"

definition FHE_ge :: "cipher \<Rightarrow> cipher \<Rightarrow> cipher" where
  "FHE_ge a b = EBool (clear a \<ge> clear b)"

definition FHE_select :: "cipher \<Rightarrow> cipher \<Rightarrow> cipher \<Rightarrow> cipher" where
  "FHE_select control a b = (if truth control then a else b)"

text \<open>
  What the contract takes from its surroundings and never computes itself: its own
  address, the hash function, the identifier the engine exports for a ciphertext
  (\<open>FHE.toBytes32\<close>) and the engine's proof check (\<open>FHE.checkSignatures\<close>).
  No property below assumes anything about them.
\<close>

record env =
  this :: address
  keccak256_encode :: "bytes32 list \<Rightarrow> address \<Rightarrow> bytes32"
  toBytes32 :: "cipher \<Rightarrow> bytes32"
  checkSignatures :: "uint256 \<Rightarrow> bytes \<Rightarrow> bytes \<Rightarrow> bool"

subsection \<open>Storage\<close>

record Batch =
  batch_id :: uint256
  isOpen :: bool
  dataCount :: uint256
  encryptedTotalVibration :: cipher
  encryptedMaxTemperature :: cipher

record DecryptionContext =
  batchId :: uint256
  stateHash :: bytes32
  processed :: bool

datatype event =
    OwnershipTransferred address address
  | ProviderAdded address
  | ProviderRemoved address
  | Paused address
  | Unpaused address
  | CooldownSecondsSet uint256 uint256
  | BatchOpened uint256
  | BatchClosed uint256
  | DataSubmitted address uint256 uint256
  | DecryptionRequested uint256 uint256
  | DecryptionCompleted uint256 uint256 uint32 uint32

datatype error =
    NotOwner | NotProvider | PausedState | CooldownActive | BatchNotOpen | BatchOpen
  | InvalidBatch | ReplayAttempt | StateMismatch | DecryptionFailed
  | Panic | DecodeRevert

text \<open>
  A Solidity mapping has a value at every key: the zero value until one is stored.
  The uninitialised \<open>euint32\<close> of a zero \<open>Batch\<close> is the zero handle, which the
  library reads as an encryption of 0. \<open>events\<close> is the log of emitted events, oldest
  first.
\<close>

record state =
  owner :: address
  isProvider :: "address \<Rightarrow> bool"
  paused :: bool
  cooldownSeconds :: uint256
  lastSubmissionTime :: "address \<Rightarrow> uint256"
  lastDecryptionRequestTime :: "address \<Rightarrow> uint256"
  currentBatchId :: uint256
  batches :: "uint256 \<Rightarrow> Batch"
  decryptionContexts :: "uint256 \<Rightarrow> DecryptionContext"
  events :: "event list"

definition zeroBatch :: Batch where
  "zeroBatch = \<lparr>batch_id = 0, isOpen = False, dataCount = 0,
     encryptedTotalVibration = EUint32 0, encryptedMaxTemperature = EUint32 0\<rparr>"

definition zeroContext :: DecryptionContext where
  "zeroContext = \<lparr>batchId = 0, stateHash = 0, processed = False\<rparr>"

definition constructor :: "address \<Rightarrow> state" where
  "constructor sender =
     \<lparr>owner = sender, isProvider = (\<lambda>_. False), paused = False, cooldownSeconds = 60,
      lastSubmissionTime = (\<lambda>_. 0), lastDecryptionRequestTime = (\<lambda>_. 0),
      currentBatchId = 0, batches = (\<lambda>_. zeroBatch),
      decryptionContexts = (\<lambda>_. zeroContext),
      events = [OwnershipTransferred 0 sender]\<rparr>"

subsection \<open>Modifiers\<close>

text \<open>Each modifier takes the rest of the call (the \<open>_\<close> of the source) as its last argument.\<close>

definition onlyOwner :: "state \<Rightarrow> address \<Rightarrow> error + 'a \<Rightarrow> error + 'a" where
  "onlyOwner s sender body = (if sender \<noteq> owner s then Inl NotOwner else body)"

definition onlyProvider :: "state \<Rightarrow> address \<Rightarrow> error + 'a \<Rightarrow> error + 'a" where
  "onlyProvider s sender body = (if \<not> isProvider s sender then Inl NotProvider else body)"

definition whenNotPaused :: "state \<Rightarrow> error + 'a \<Rightarrow> error + 'a" where
  "whenNotPaused s body = (if paused s then Inl PausedState else body)"

definition respectCooldown ::
  "state \<Rightarrow> uint256 \<Rightarrow> address \<Rightarrow> uint256 \<Rightarrow> string \<Rightarrow> error + 'a \<Rightarrow> error + 'a" where
  "respectCooldown s now addr lastTime action body =
     (case checked_add lastTime (cooldownSeconds s) of
        None \<Rightarrow> Inl Panic
      | Some t \<Rightarrow> if now < t then Inl CooldownActive else body)"

subsection \<open>Access guard\<close>

definition transferOwnership :: "state \<Rightarrow> address \<Rightarrow> address \<Rightarrow> error + state" where
  "transferOwnership s sender newOwner =
     onlyOwner s sender
       (Inr (s\<lparr>owner := newOwner,
              events := events s @ [OwnershipTransferred (owner s) newOwner]\<rparr>))"

definition addProvider :: "state \<Rightarrow> address \<Rightarrow> address \<Rightarrow> error + state" where
  "addProvider s sender provider =
     onlyOwner s sender
       (Inr (s\<lparr>isProvider := (isProvider s)(provider := True),
              events := events s @ [ProviderAdded provider]\<rparr>))"

definition removeProvider :: "state \<Rightarrow> address \<Rightarrow> address \<Rightarrow> error + state" where
  "removeProvider s sender provider =
     onlyOwner s sender
       (Inr (s\<lparr>isProvider := (isProvider s)(provider := False),
              events := events s @ [ProviderRemoved provider]\<rparr>))"

definition setPaused :: "state \<Rightarrow> address \<Rightarrow> bool \<Rightarrow> error + state" where
  "setPaused s sender p =
     onlyOwner s sender
       (if p then Inr (s\<lparr>paused := True, events := events s @ [Paused sender]\<rparr>)
        else Inr (s\<lparr>paused := False, events := events s @ [Unpaused sender]\<rparr>))"

definition setCooldownSeconds :: "state \<Rightarrow> address \<Rightarrow> uint256 \<Rightarrow> error + state" where
  "setCooldownSeconds s sender c =
     onlyOwner s sender
       (Inr (s\<lparr>cooldownSeconds := c,
              events := events s @ [CooldownSecondsSet (cooldownSeconds s) c]\<rparr>))"

subsection \<open>Batch ledger\<close>

definition openBatch :: "state \<Rightarrow> address \<Rightarrow> error + state" where
  "openBatch s sender =
     onlyOwner s sender (whenNotPaused s
       (if isOpen (batches s (currentBatchId s)) then Inl BatchOpen
        else case checked_add (currentBatchId s) 1 of
          None \<Rightarrow> Inl Panic
        | Some n \<Rightarrow>
            Inr (s\<lparr>currentBatchId := n,
                   batches := (batches s)(n :=
                     \<lparr>batch_id = n, isOpen = True, dataCount = 0,
                      encryptedTotalVibration = FHE_asEuint32 0,
                      encryptedMaxTemperature = FHE_asEuint32 0\<rparr>),
                   events := events s @ [BatchOpened n]\<rparr>)))"

definition closeBatch :: "state \<Rightarrow> address \<Rightarrow> error + state" where
  "closeBatch s sender =
     onlyOwner s sender (whenNotPaused s
       (if \<not> isOpen (batches s (currentBatchId s)) then Inl BatchNotOpen
        else Inr (s\<lparr>batches := (batches s)(currentBatchId s :=
                       (batches s (currentBatchId s))\<lparr>isOpen := False\<rparr>),
                    events := events s @ [BatchClosed (currentBatchId s)]\<rparr>)))"

text \<open>
  \<open>_initIfNeeded\<close> takes its ciphertext by value, returns nothing and writes no storage
  of the contract, so the call leaves the state and both arguments as they are.
\<close>

definition initIfNeeded :: "cipher \<Rightarrow> state \<Rightarrow> state" where
  "initIfNeeded c s = s"

definition submitData ::
  "state \<Rightarrow> address \<Rightarrow> uint256 \<Rightarrow> cipher \<Rightarrow> cipher \<Rightarrow> error + state" where
  "submitData s0 sender now encryptedVibration encryptedTemperature =
     onlyProvider s0 sender (whenNotPaused s0
       (respectCooldown s0 now sender (lastSubmissionTime s0 sender) ''submission''
         (if \<not> isOpen (batches s0 (currentBatchId s0)) then Inl BatchNotOpen
          else
            let s = initIfNeeded encryptedTemperature (initIfNeeded encryptedVibration s0);
                currentBatch = batches s (currentBatchId s)
            in case checked_add (dataCount currentBatch) 1 of
              None \<Rightarrow> Inl Panic
            | Some c \<Rightarrow>
                let total = FHE_add (encryptedTotalVibration currentBatch) encryptedVibration;
                    isGreater = FHE_ge encryptedTemperature (encryptedMaxTemperature currentBatch);
                    maxT = FHE_select (encryptedMaxTemperature currentBatch)
                             encryptedTemperature isGreater
                in Inr (s\<lparr>batches := (batches s)(currentBatchId s :=
                            currentBatch\<lparr>dataCount := c,
                              encryptedTotalVibration := total,
                              encryptedMaxTemperature := maxT\<rparr>),
                          lastSubmissionTime := (lastSubmissionTime s)(sender := now),
                          events := events s @ [DataSubmitted sender (currentBatchId s) c]\<rparr>))))"

subsection \<open>Decryption bridge\<close>

definition hashCiphertexts :: "env \<Rightarrow> bytes32 list \<Rightarrow> bytes32" where
  "hashCiphertexts e cts = keccak256_encode e cts (this e)"

definition batchHandles :: "env \<Rightarrow> state \<Rightarrow> uint256 \<Rightarrow> bytes32 list" where
  "batchHandles e s b =
     [toBytes32 e (encryptedTotalVibration (batches s b)),
      toBytes32 e (encryptedMaxTemperature (batches s b))]"

text \<open>
  \<open>FHE.requestDecryption\<close> hands the handles to the engine, which answers with the
  request id. The id is the engine's choice, so it is an argument of the call here.
\<close>

definition requestBatchDecryption ::
  "env \<Rightarrow> state \<Rightarrow> address \<Rightarrow> uint256 \<Rightarrow> uint256 \<Rightarrow> uint256 \<Rightarrow> error + state" where
  "requestBatchDecryption e s sender now b requestId =
     onlyOwner s sender (whenNotPaused s
       (respectCooldown s now sender (lastDecryptionRequestTime s sender) ''decryption_request''
         (if b = 0 \<or> b > currentBatchId s \<or> isOpen (batches s b) then Inl InvalidBatch
          else
            let cts = batchHandles e s b;
                h = hashCiphertexts e cts
            in Inr (s\<lparr>decryptionContexts := (decryptionContexts s)(requestId :=
                        \<lparr>batchId = b, stateHash = h, processed = False\<rparr>),
                      lastDecryptionRequestTime :=
                        (lastDecryptionRequestTime s)(sender := now),
                      events := events s @ [DecryptionRequested requestId b]\<rparr>))))"

text \<open>
  \<open>abi.decode(cleartexts, (uint32, uint32))\<close>: two 32-byte big-endian words, each of
  which must fit 32 bits; shorter data or a larger word reverts.
\<close>

definition be_word :: "bytes \<Rightarrow> uint256" where
  "be_word bs = foldl (\<lambda>acc b. acc * 256 + ucast b) 0 bs"

definition abi_decode_uint32_pair :: "bytes \<Rightarrow> (uint32 \<times> uint32) option" where
  "abi_decode_uint32_pair bs =
     (if length bs < 64 then None
      else let a = be_word (take 32 bs); b = be_word (take 32 (drop 32 bs))
           in if a < 2 ^ 32 \<and> b < 2 ^ 32 then Some (ucast a, ucast b) else None)"

definition myCallback ::
  "env \<Rightarrow> state \<Rightarrow> uint256 \<Rightarrow> bytes \<Rightarrow> bytes \<Rightarrow> error + state" where
  "myCallback e s requestId cleartexts prf =
     (if processed (decryptionContexts s requestId) then Inl ReplayAttempt
      else
        let b = batchId (decryptionContexts s requestId)
        in if b = 0 \<or> b > currentBatchId s then Inl InvalidBatch
           else
             let currentHash = hashCiphertexts e (batchHandles e s b)
             in if currentHash \<noteq> stateHash (decryptionContexts s requestId)
                then Inl StateMismatch
                else if \<not> checkSignatures e requestId cleartexts prf then Inl DecryptionFailed
                else case abi_decode_uint32_pair cleartexts of
                  None \<Rightarrow> Inl DecodeRevert
                | Some (totalVibrationCleartext, maxTemperatureCleartext) \<Rightarrow>
                    Inr (s\<lparr>decryptionContexts := (decryptionContexts s)(requestId :=
                              (decryptionContexts s requestId)\<lparr>processed := True\<rparr>),
                            events := events s @
                              [DecryptionCompleted requestId b
                                 totalVibrationCleartext maxTemperatureCleartext]\<rparr>))"

subsection \<open>Transactions\<close>

datatype call =
    TransferOwnership address
  | AddProvider address
  | RemoveProvider address
  | SetPaused bool
  | SetCooldownSeconds uint256
  | OpenBatch
  | CloseBatch
  | SubmitData cipher cipher
  | RequestBatchDecryption uint256 uint256
  | MyCallback uint256 bytes bytes

record tx =
  sender :: address
  timestamp :: uint256
  called :: call

fun exec :: "env \<Rightarrow> state \<Rightarrow> address \<Rightarrow> uint256 \<Rightarrow> call \<Rightarrow> error + state" where
  "exec e s a t (TransferOwnership n) = transferOwnership s a n"
| "exec e s a t (AddProvider p) = addProvider s a p"
| "exec e s a t (RemoveProvider p) = removeProvider s a p"
| "exec e s a t (SetPaused p) = setPaused s a p"
| "exec e s a t (SetCooldownSeconds c) = setCooldownSeconds s a c"
| "exec e s a t OpenBatch = openBatch s a"
| "exec e s a t CloseBatch = closeBatch s a"
| "exec e s a t (SubmitData v tm) = submitData s a t v tm"
| "exec e s a t (RequestBatchDecryption b r) = requestBatchDecryption e s a t b r"
| "exec e s a t (MyCallback r c p) = myCallback e s r c p"

text \<open>A transaction that reverts leaves the storage as it was.\<close>

definition step :: "env \<Rightarrow> state \<Rightarrow> tx \<Rightarrow> state" where
  "step e s x = (case exec e s (sender x) (timestamp x) (called x) of
                   Inl err \<Rightarrow> s | Inr s' \<Rightarrow> s')"

definition run :: "env \<Rightarrow> state \<Rightarrow> tx list \<Rightarrow> state" where
  "run e s xs = foldl (step e) s xs"

subsection \<open>Runs of submissions\<close>

text \<open>
  One successful \<open>submitData\<close> call: who sent it, when, and the two ciphertexts.
  \<open>submitAll\<close> performs the calls in order and stops at the first one that reverts.
\<close>

record submission =
  provider :: address
  at_time :: uint256
  vibration :: cipher
  temperature :: cipher

fun submitAll :: "state \<Rightarrow> submission list \<Rightarrow> error + state" where
  "submitAll s [] = Inr s"
| "submitAll s (x # xs) =
     (case submitData s (provider x) (at_time x) (vibration x) (temperature x) of
        Inl err \<Rightarrow> Inl err
      | Inr s' \<Rightarrow> submitAll s' xs)"

subsection \<open>Predicates on calls and on the event log\<close>

text \<open>\<open>requests r k\<close>: the call \<open>k\<close> is a decryption request that the engine answers with id \<open>r\<close>.\<close>

fun requests :: "uint256 \<Rightarrow> call \<Rightarrow> bool" where
  "requests r (RequestBatchDecryption b r') = (r' = r)"
| "requests r _ = False"

text \<open>The external functions that carry the \<open>onlyOwner\<close> modifier.\<close>

fun ownerGated :: "call \<Rightarrow> bool" where
  "ownerGated (SubmitData v tm) = False"
| "ownerGated (MyCallback r c p) = False"
| "ownerGated _ = True"

text \<open>The batch ids announced by \<open>BatchOpened\<close> events, in the order of allocation.\<close>

fun openedIds :: "event list \<Rightarrow> uint256 list" where
  "openedIds [] = []"
| "openedIds (BatchOpened n # evs) = n # openedIds evs"
| "openedIds (_ # evs) = openedIds evs"

text \<open>
  The ledger invariant: the ids allocated so far are 1, 2, ..., \<open>currentBatchId\<close> in
  this order; only the current batch can be open; every allocated batch records its own id.
\<close>

definition ledger_inv :: "state \<Rightarrow> bool" where
  "ledger_inv s \<longleftrightarrow>
     openedIds (events s) = map word_of_nat [1..<Suc (unat (currentBatchId s))]
   \<and> (\<forall>b. isOpen (batches s b) \<longrightarrow> b = currentBatchId s)
   \<and> (\<forall>b. b \<noteq> 0 \<and> b \<le> currentBatchId s \<longrightarrow> batch_id (batches s b) = b)"

subsection \<open>A concrete deployment\<close>

text \<open>
  Address 1 deploys the contract, registers address 2 as a provider and opens batch 1.
  The environment is an arbitrary concrete one.
\<close>

definition demo_env :: env where
  "demo_env = \<lparr>this = 9,
     keccak256_encode = (\<lambda>cts a. foldl (\<lambda>acc c. acc * 31 + c) (ucast a) cts),
     toBytes32 = (\<lambda>c. ucast (clear c) + 1),
     checkSignatures = (\<lambda>r c p. p = [1])\<rparr>"

definition demo_ready :: state where
  "demo_ready = projr (addProvider (constructor 1) 1 2)"

definition demo_open :: state where
  "demo_open = projr (openBatch demo_ready 1)"

definition reading :: "uint256 \<Rightarrow> uint32 \<Rightarrow> uint32 \<Rightarrow> submission" where
  "reading t v tm = \<lparr>provider = 2, at_time = t, vibration = EUint32 v, temperature = EUint32 tm\<rparr>"

text \<open>
  Provider 2 submits two readings, the owner closes batch 1 and requests its decryption
  at time 1000; the engine answers with request id 1. \<open>demo_cleartexts\<close> is the ABI
  encoding of the pair (8, 5); the concrete engine accepts the proof \<open>[1]\<close> only.
\<close>

definition demo_filled :: state where
  "demo_filled = projr (submitAll demo_open [reading 100 5 20, reading 200 3 5])"

definition demo_closed :: state where
  "demo_closed = projr (closeBatch demo_filled 1)"

definition demo_requested :: state where
  "demo_requested = projr (requestBatchDecryption demo_env demo_closed 1 1000 1 1)"

definition demo_cleartexts :: bytes where
  "demo_cleartexts = replicate 31 0 @ [8] @ replicate 31 0 @ [5]"

definition demo_completed :: state where
  "demo_completed = projr (myCallback demo_env demo_requested 1 demo_cleartexts [1])"

definition demo_paused :: state where
  "demo_paused = projr (setPaused demo_open 1 True)"

text \<open>The requested state with the sum accumulator of the closed batch 1 overwritten.\<close>

definition demo_tampered :: state where
  "demo_tampered = demo_requested\<lparr>batches := (batches demo_requested)(1 :=
      (batches demo_requested 1)\<lparr>encryptedTotalVibration := EUint32 9\<rparr>)\<rparr>"

lemmas model_defs =
  constructor_def zeroBatch_def zeroContext_def checked_add_def
  onlyOwner_def onlyProvider_def whenNotPaused_def respectCooldown_def
  transferOwnership_def addProvider_def removeProvider_def setPaused_def
  setCooldownSeconds_def openBatch_def closeBatch_def initIfNeeded_def submitData_def
  hashCiphertexts_def batchHandles_def requestBatchDecryption_def myCallback_def
  FHE_asEuint32_def FHE_add_def FHE_ge_def FHE_select_def

lemmas demo_defs = demo_env_def demo_ready_def demo_open_def reading_def demo_filled_def
  demo_closed_def demo_requested_def demo_completed_def demo_paused_def

lemma demo_decode: "abi_decode_uint32_pair demo_cleartexts = Some (8, 5)"
  by code_simp

lemmas demo_eval = demo_defs demo_decode model_defs Let_def

section \<open>Accumulation\<close>

lemma submitData_effect:
  assumes "submitData s a t v tm = Inr s'"
  shows "currentBatchId s' = currentBatchId s"
    and "encryptedTotalVibration (batches s' (currentBatchId s)) =
           FHE_add (encryptedTotalVibration (batches s (currentBatchId s))) v"
    and "encryptedMaxTemperature (batches s' (currentBatchId s)) =
           FHE_select (encryptedMaxTemperature (batches s (currentBatchId s))) tm
             (FHE_ge tm (encryptedMaxTemperature (batches s (currentBatchId s))))"
  using assms
  by (auto simp: submitData_def onlyProvider_def whenNotPaused_def respectCooldown_def
        initIfNeeded_def Let_def split: if_splits option.splits)

lemma openBatch_effect:
  assumes "openBatch s0 a = Inr s"
  shows "encryptedTotalVibration (batches s (currentBatchId s)) = EUint32 0"
    and "encryptedMaxTemperature (batches s (currentBatchId s)) = EUint32 0"
    and "isOpen (batches s (currentBatchId s))"
  using assms
  by (auto simp: openBatch_def onlyOwner_def whenNotPaused_def FHE_asEuint32_def
      split: if_splits option.splits)

lemma submitAll_sum:
  "submitAll s xs = Inr s' \<Longrightarrow>
     currentBatchId s' = currentBatchId s \<and>
     clear (encryptedTotalVibration (batches s' (currentBatchId s))) =
       clear (encryptedTotalVibration (batches s (currentBatchId s)))
         + sum_list (map (\<lambda>x. clear (vibration x)) xs)"
proof (induction xs arbitrary: s)
  case Nil
  then show ?case by simp
next
  case (Cons x xs)
  from Cons.prems obtain s1 where
    s1: "submitData s (provider x) (at_time x) (vibration x) (temperature x) = Inr s1"
    and rest: "submitAll s1 xs = Inr s'"
    by (auto split: sum.splits)
  note e = submitData_effect[OF s1]
  from Cons.IH[OF rest] e show ?case
    by (simp add: FHE_add_def add.assoc)
qed

text \<open>
  C2. For a batch just opened and any sequence of submissions to it, the sum accumulator
  decrypts to the sum, in 32 bits, of the submitted vibration values; any other sequence
  of submissions with the same values in another order leaves the same sum.
\<close>

theorem sum_accumulator_is_sum:
  assumes "openBatch s0 a = Inr s" and "submitAll s xs = Inr s'"
  shows "clear (encryptedTotalVibration (batches s' (currentBatchId s))) =
           sum_list (map (\<lambda>x. clear (vibration x)) xs)
       \<and> (\<forall>ys s''. submitAll s ys = Inr s'' \<and>
             mset (map (\<lambda>x. clear (vibration x)) ys) = mset (map (\<lambda>x. clear (vibration x)) xs)
             \<longrightarrow> clear (encryptedTotalVibration (batches s'' (currentBatchId s))) =
                 clear (encryptedTotalVibration (batches s' (currentBatchId s))))"
proof -
  have z: "clear (encryptedTotalVibration (batches s (currentBatchId s))) = 0"
    using openBatch_effect(1)[OF assms(1)] by simp
  have sum: "\<And>zs t. submitAll s zs = Inr t \<Longrightarrow>
      clear (encryptedTotalVibration (batches t (currentBatchId s))) =
        sum_list (map (\<lambda>x. clear (vibration x)) zs)"
    using submitAll_sum z by fastforce
  have perm: "\<And>us vs :: uint32 list. mset us = mset vs \<Longrightarrow> sum_list us = sum_list vs"
    by (metis sum_mset_sum_list)
  show ?thesis
    using sum[OF assms(2)] sum perm by metis
qed

theorem sum_accumulator_is_sum_witness:
  "openBatch demo_ready 1 = Inr demo_open
   \<and> submitAll demo_open [reading 100 5 20, reading 200 3 5] =
       Inr (projr (submitAll demo_open [reading 100 5 20, reading 200 3 5]))
   \<and> submitAll demo_open [reading 100 3 5, reading 200 5 20] =
       Inr (projr (submitAll demo_open [reading 100 3 5, reading 200 5 20]))
   \<and> clear (encryptedTotalVibration (batches
        (projr (submitAll demo_open [reading 100 5 20, reading 200 3 5]))
        (currentBatchId demo_open))) = 8
   \<and> clear (encryptedTotalVibration (batches
        (projr (submitAll demo_open [reading 100 3 5, reading 200 5 20]))
        (currentBatchId demo_open))) =
     clear (encryptedTotalVibration (batches
        (projr (submitAll demo_open [reading 100 5 20, reading 200 3 5]))
        (currentBatchId demo_open)))"
proof -
  have a: "openBatch demo_ready 1 = Inr demo_open"
    by (simp add: demo_defs model_defs)
  have b: "submitAll demo_open [reading 100 5 20, reading 200 3 5] =
       Inr (projr (submitAll demo_open [reading 100 5 20, reading 200 3 5]))"
    by (simp add: demo_defs model_defs Let_def)
  have c: "submitAll demo_open [reading 100 3 5, reading 200 5 20] =
       Inr (projr (submitAll demo_open [reading 100 3 5, reading 200 5 20]))"
    by (simp add: demo_defs model_defs Let_def)
  have d: "mset (map (\<lambda>x. clear (vibration x)) [reading 100 3 5, reading 200 5 20]) =
           mset (map (\<lambda>x. clear (vibration x)) [reading 100 5 20, reading 200 3 5])"
    by (simp add: reading_def)
  have e: "sum_list (map (\<lambda>x. clear (vibration x)) [reading 100 5 20, reading 200 3 5]) = 8"
    by (simp add: reading_def)
  from sum_accumulator_is_sum[OF a b] c d e a b show ?thesis
    by metis
qed

text \<open>
  C1. \<open>submitData\<close> passes \<open>FHE.select\<close> the old maximum, the new temperature and the
  comparison, in that order, so the comparison sits where the fallback belongs and the
  old maximum where the condition belongs: whatever \<open>select\<close> returns, it is the new
  temperature or the comparison bit, never the old maximum. In batch 1 of the concrete
  deployment, submitting the temperatures 20 and then 5 leaves the max accumulator
  decrypting to 5; submitting 5 and then 20 leaves 20.
\<close>

theorem max_accumulator_select_arguments:
  "submitAll demo_open [reading 100 5 20, reading 200 3 5] =
       Inr (projr (submitAll demo_open [reading 100 5 20, reading 200 3 5]))
   \<and> clear (encryptedMaxTemperature (batches
        (projr (submitAll demo_open [reading 100 5 20, reading 200 3 5])) 1)) = 5
   \<and> clear (encryptedMaxTemperature (batches
        (projr (submitAll demo_open [reading 100 3 5, reading 200 5 20])) 1)) = 20"
  by (simp add: demo_defs model_defs Let_def)

section \<open>The ledger invariant\<close>

lemma openedIds_append: "openedIds (xs @ ys) = openedIds xs @ openedIds ys"
  by (induction xs rule: openedIds.induct) simp_all

lemma checked_add_one:
  "checked_add n 1 = Some m \<Longrightarrow> unat m = Suc (unat n) \<and> m = n + 1 \<and> n < m"
  by (auto simp: checked_add_def unat_word_ariths word_less_nat_alt split: if_splits)

lemma inv_init: "ledger_inv (constructor d)"
  by (simp add: ledger_inv_def constructor_def zeroBatch_def)

lemma ids_extend:
  assumes "openedIds evs = map word_of_nat [1..<Suc (unat (c::uint256))]"
    and "unat n = Suc (unat c)"
  shows "openedIds (evs @ [BatchOpened n]) = map word_of_nat [1..<Suc (unat n)]"
proof -
  have "[1..<Suc (unat n)] = [1..<Suc (unat c)] @ [unat n]"
    using assms(2) by (simp del: upt_Suc add: upt_Suc_append)
  then show ?thesis
    using assms(1) by (simp del: upt_Suc add: openedIds_append)
qed

lemma inv_frame:
  assumes "ledger_inv s"
    and "currentBatchId s' = currentBatchId s"
    and "openedIds (events s') = openedIds (events s)"
    and "\<And>b. isOpen (batches s' b) \<Longrightarrow> isOpen (batches s b)"
    and "\<And>b. batch_id (batches s' b) = batch_id (batches s b)"
  shows "ledger_inv s'"
  using assms unfolding ledger_inv_def by auto

lemma inv_openBatch:
  assumes "ledger_inv s" and "openBatch s a = Inr s'"
  shows "ledger_inv s'"
proof -
  from assms(2) obtain n where n: "checked_add (currentBatchId s) 1 = Some n"
    and closed: "\<not> isOpen (batches s (currentBatchId s))"
    and s': "s' = s\<lparr>currentBatchId := n,
                   batches := (batches s)(n :=
                     \<lparr>batch_id = n, isOpen = True, dataCount = 0,
                      encryptedTotalVibration = FHE_asEuint32 0,
                      encryptedMaxTemperature = FHE_asEuint32 0\<rparr>),
                   events := events s @ [BatchOpened n]\<rparr>"
    by (auto simp: openBatch_def onlyOwner_def whenNotPaused_def split: if_splits option.splits)
  note c = checked_add_one[OF n]
  have none: "\<And>b. \<not> isOpen (batches s b)"
    using assms(1) closed by (auto simp: ledger_inv_def)
  have a1: "openedIds (events s) = map word_of_nat [1..<Suc (unat (currentBatchId s))]"
    using assms(1) unfolding ledger_inv_def by blast
  have cur: "currentBatchId s' = n" "events s' = events s @ [BatchOpened n]"
    by (simp_all add: s')
  have un: "unat n = Suc (unat (currentBatchId s))"
    using c by blast
  have le: "\<And>b. b \<le> n \<Longrightarrow> b \<noteq> n \<Longrightarrow> b \<le> currentBatchId s"
  proof -
    fix b assume "b \<le> n" "b \<noteq> n"
    then have "unat b < unat n" by (simp add: word_le_nat_alt word_unat_eq_iff)
    with un show "b \<le> currentBatchId s" by (simp add: word_le_nat_alt)
  qed
  have ids: "openedIds (events s') = map word_of_nat [1..<Suc (unat (currentBatchId s'))]"
    using ids_extend[OF a1 un] by (simp only: cur)
  have op: "\<And>b. isOpen (batches s' b) \<Longrightarrow> b = currentBatchId s'"
    using none by (simp add: s' split: if_splits)
  have idk: "\<And>b. b \<noteq> 0 \<and> b \<le> currentBatchId s' \<Longrightarrow> batch_id (batches s' b) = b"
    using assms(1) le by (auto simp: s' ledger_inv_def)
  show ?thesis
    unfolding ledger_inv_def using ids op idk by blast
qed

lemma inv_closeBatch:
  assumes "ledger_inv s" and "closeBatch s a = Inr s'"
  shows "ledger_inv s'"
proof -
  from assms(2) have s': "s' = s\<lparr>batches := (batches s)(currentBatchId s :=
                       (batches s (currentBatchId s))\<lparr>isOpen := False\<rparr>),
                    events := events s @ [BatchClosed (currentBatchId s)]\<rparr>"
    by (auto simp: closeBatch_def onlyOwner_def whenNotPaused_def split: if_splits)
  show ?thesis
    by (rule inv_frame[OF assms(1)]) (simp_all add: s' openedIds_append split: if_splits)
qed

lemma inv_submitData:
  assumes "ledger_inv s" and "submitData s a t v tm = Inr s'"
  shows "ledger_inv s'"
proof -
  from assms(2) obtain c mx where s': "s' = s\<lparr>batches := (batches s)(currentBatchId s :=
                            (batches s (currentBatchId s))\<lparr>dataCount := c,
                              encryptedTotalVibration :=
                                FHE_add (encryptedTotalVibration (batches s (currentBatchId s))) v,
                              encryptedMaxTemperature := mx\<rparr>),
                          lastSubmissionTime := (lastSubmissionTime s)(a := t),
                          events := events s @ [DataSubmitted a (currentBatchId s) c]\<rparr>"
    by (auto simp: submitData_def onlyProvider_def whenNotPaused_def
        respectCooldown_def initIfNeeded_def Let_def split: if_splits option.splits)
  show ?thesis
    by (rule inv_frame[OF assms(1)]) (simp_all add: s' openedIds_append split: if_splits)
qed

lemma inv_request:
  assumes "ledger_inv s" and "requestBatchDecryption e s a t b r = Inr s'"
  shows "ledger_inv s'"
proof -
  from assms(2) obtain h where s': "s' = s\<lparr>decryptionContexts := (decryptionContexts s)(r :=
                        \<lparr>batchId = b, stateHash = h, processed = False\<rparr>),
                      lastDecryptionRequestTime :=
                        (lastDecryptionRequestTime s)(a := t),
                      events := events s @ [DecryptionRequested r b]\<rparr>"
    by (auto simp: requestBatchDecryption_def onlyOwner_def whenNotPaused_def
        respectCooldown_def Let_def split: if_splits option.splits)
  show ?thesis
    by (rule inv_frame[OF assms(1)]) (simp_all add: s' openedIds_append)
qed

lemma inv_myCallback:
  assumes "ledger_inv s" and "myCallback e s r c p = Inr s'"
  shows "ledger_inv s'"
proof -
  from assms(2) obtain ev where s': "s' = s\<lparr>decryptionContexts := (decryptionContexts s)(r :=
                              (decryptionContexts s r)\<lparr>processed := True\<rparr>),
                            events := events s @ [ev]\<rparr>"
      and ev: "openedIds [ev] = []"
    by (auto simp: myCallback_def Let_def split: if_splits option.splits prod.splits)
  show ?thesis
    by (rule inv_frame[OF assms(1)]) (simp_all add: s' ev openedIds_append)
qed

lemma inv_admin:
  assumes "ledger_inv s"
  shows "transferOwnership s a n = Inr s' \<Longrightarrow> ledger_inv s'"
    and "addProvider s a p = Inr s' \<Longrightarrow> ledger_inv s'"
    and "removeProvider s a p = Inr s' \<Longrightarrow> ledger_inv s'"
    and "setPaused s a q = Inr s' \<Longrightarrow> ledger_inv s'"
    and "setCooldownSeconds s a cd = Inr s' \<Longrightarrow> ledger_inv s'"
  by (rule inv_frame[OF assms];
      auto simp: transferOwnership_def addProvider_def removeProvider_def setPaused_def
        setCooldownSeconds_def onlyOwner_def openedIds_append split: if_splits)+

lemma inv_exec:
  assumes "ledger_inv s" and "exec e s a t k = Inr s'"
  shows "ledger_inv s'"
proof (cases k)
  case (TransferOwnership n)
  with assms(2) have "transferOwnership s a n = Inr s'" by simp
  then show ?thesis by (rule inv_admin(1)[OF assms(1)])
next
  case (AddProvider p)
  with assms(2) have "addProvider s a p = Inr s'" by simp
  then show ?thesis by (rule inv_admin(2)[OF assms(1)])
next
  case (RemoveProvider p)
  with assms(2) have "removeProvider s a p = Inr s'" by simp
  then show ?thesis by (rule inv_admin(3)[OF assms(1)])
next
  case (SetPaused q)
  with assms(2) have "setPaused s a q = Inr s'" by simp
  then show ?thesis by (rule inv_admin(4)[OF assms(1)])
next
  case (SetCooldownSeconds cd)
  with assms(2) have "setCooldownSeconds s a cd = Inr s'" by simp
  then show ?thesis by (rule inv_admin(5)[OF assms(1)])
next
  case OpenBatch
  with assms(2) have "openBatch s a = Inr s'" by simp
  then show ?thesis by (rule inv_openBatch[OF assms(1)])
next
  case CloseBatch
  with assms(2) have "closeBatch s a = Inr s'" by simp
  then show ?thesis by (rule inv_closeBatch[OF assms(1)])
next
  case (SubmitData v tm)
  with assms(2) have "submitData s a t v tm = Inr s'" by simp
  then show ?thesis by (rule inv_submitData[OF assms(1)])
next
  case (RequestBatchDecryption b r)
  with assms(2) have "requestBatchDecryption e s a t b r = Inr s'" by simp
  then show ?thesis by (rule inv_request[OF assms(1)])
next
  case (MyCallback r c p)
  with assms(2) have "myCallback e s r c p = Inr s'" by simp
  then show ?thesis by (rule inv_myCallback[OF assms(1)])
qed

lemma inv_step: "ledger_inv s \<Longrightarrow> ledger_inv (step e s x)"
  by (auto simp: step_def split: sum.splits dest: inv_exec)

lemma inv_run: "ledger_inv s \<Longrightarrow> ledger_inv (run e s xs)"
  unfolding run_def by (induction xs arbitrary: s) (simp_all add: inv_step)

text \<open>
  C8. In every state reached from the constructor by any sequence of transactions, the
  batch ids allocated so far are 1, 2, ..., \<open>currentBatchId\<close> in this order (so
  \<open>currentBatchId\<close> is their number) and at most one batch is open; \<open>openBatch\<close>,
  \<open>closeBatch\<close> and \<open>submitData\<close> each preserve the invariant.
\<close>

theorem batch_ids_and_single_open_batch:
  "ledger_inv (run e (constructor d) xs)
   \<and> openedIds (events (run e (constructor d) xs)) =
       map word_of_nat [1..<Suc (unat (currentBatchId (run e (constructor d) xs)))]
   \<and> length (openedIds (events (run e (constructor d) xs))) =
       unat (currentBatchId (run e (constructor d) xs))
   \<and> (\<forall>b b'. isOpen (batches (run e (constructor d) xs) b) \<and>
              isOpen (batches (run e (constructor d) xs) b') \<longrightarrow> b = b')
   \<and> (\<forall>s a s'. ledger_inv s \<and> openBatch s a = Inr s' \<longrightarrow> ledger_inv s')
   \<and> (\<forall>s a s'. ledger_inv s \<and> closeBatch s a = Inr s' \<longrightarrow> ledger_inv s')
   \<and> (\<forall>s a t v tm s'. ledger_inv s \<and> submitData s a t v tm = Inr s' \<longrightarrow> ledger_inv s')"
proof -
  let ?S = "run e (constructor d) xs"
  have i: "ledger_inv ?S"
    by (rule inv_run[OF inv_init])
  have a: "openedIds (events ?S) = map word_of_nat [1..<Suc (unat (currentBatchId ?S))]"
    using i unfolding ledger_inv_def by (rule conjunct1)
  have cur: "\<And>b. isOpen (batches ?S b) \<Longrightarrow> b = currentBatchId ?S"
    using i unfolding ledger_inv_def by blast
  have b: "\<forall>b b'. isOpen (batches ?S b) \<and> isOpen (batches ?S b') \<longrightarrow> b = b'"
    using cur by metis
  have o: "\<forall>s a s'. ledger_inv s \<and> openBatch s a = Inr s' \<longrightarrow> ledger_inv s'"
    using inv_openBatch by blast
  have c: "\<forall>s a s'. ledger_inv s \<and> closeBatch s a = Inr s' \<longrightarrow> ledger_inv s'"
    using inv_closeBatch by blast
  have u: "\<forall>s a t v tm s'. ledger_inv s \<and> submitData s a t v tm = Inr s' \<longrightarrow> ledger_inv s'"
    using inv_submitData by blast
  have n: "length (openedIds (events ?S)) = unat (currentBatchId ?S)"
    by (simp only: a length_map length_upt diff_Suc_1)
  from i a n b o c u show ?thesis
    by (intro conjI)
qed

theorem batch_ids_and_single_open_batch_witness:
  "ledger_inv (constructor 1)
   \<and> openBatch (constructor 1) 1 = Inr (projr (openBatch (constructor 1) 1))
   \<and> ledger_inv (projr (openBatch (constructor 1) 1))
   \<and> currentBatchId (projr (openBatch (constructor 1) 1)) = 1
   \<and> isOpen (batches (projr (openBatch (constructor 1) 1)) 1)"
proof -
  have o: "openBatch (constructor 1) 1 = Inr (projr (openBatch (constructor 1) 1))"
    by (simp add: demo_eval)
  have r: "run demo_env (constructor 1) [] = constructor 1"
    by (simp add: run_def)
  have v: "currentBatchId (projr (openBatch (constructor 1) 1)) = 1"
      "isOpen (batches (projr (openBatch (constructor 1) 1)) 1)"
    by (simp_all add: demo_eval)
  from batch_ids_and_single_open_batch[of demo_env 1 "[]"] r o v show ?thesis
    by metis
qed

section \<open>Access guard\<close>

text \<open>
  C7, amended. While the pause flag is set, \<open>openBatch\<close>, \<open>closeBatch\<close> and
  \<open>requestBatchDecryption\<close> called by the owner fail with \<open>PausedState\<close> and leave
  the state unchanged; \<open>addProvider\<close>, \<open>removeProvider\<close>, \<open>setCooldownSeconds\<close>
  and \<open>setPaused\<close> carry no pause check and succeed for the owner.
\<close>

theorem paused_gates_batch_operations:
  assumes "paused s" and "a = owner s"
  shows "openBatch s a = Inl PausedState
       \<and> closeBatch s a = Inl PausedState
       \<and> requestBatchDecryption e s a t b r = Inl PausedState
       \<and> step e s \<lparr>sender = a, timestamp = t, called = OpenBatch\<rparr> = s
       \<and> step e s \<lparr>sender = a, timestamp = t, called = CloseBatch\<rparr> = s
       \<and> step e s \<lparr>sender = a, timestamp = t, called = RequestBatchDecryption b r\<rparr> = s
       \<and> isProvider (projr (addProvider s a p)) p \<and> addProvider s a p \<noteq> Inl PausedState
       \<and> \<not> isProvider (projr (removeProvider s a p)) p \<and> removeProvider s a p \<noteq> Inl PausedState
       \<and> cooldownSeconds (projr (setCooldownSeconds s a n)) = n
       \<and> setCooldownSeconds s a n \<noteq> Inl PausedState
       \<and> paused (projr (setPaused s a True)) \<and> setPaused s a True \<noteq> Inl PausedState"
  using assms by (simp add: model_defs step_def)

theorem paused_gates_batch_operations_witness:
  "paused demo_paused \<and> 1 = owner demo_paused
   \<and> openBatch demo_paused 1 = Inl PausedState
   \<and> closeBatch demo_paused 1 = Inl PausedState
   \<and> requestBatchDecryption demo_env demo_paused 1 1000 1 1 = Inl PausedState
   \<and> isProvider (projr (addProvider demo_paused 1 3)) 3"
proof -
  have a: "paused demo_paused" and b: "1 = owner demo_paused"
    by (simp_all add: demo_eval)
  from paused_gates_batch_operations[OF a b, of demo_env 1000 1 1 3] a b show ?thesis
    by simp
qed

theorem pause_does_not_gate_addProvider_counterexample:
  "paused demo_paused \<and> owner demo_paused = 1
   \<and> addProvider demo_paused 1 3 \<noteq> Inl PausedState
   \<and> isProvider (projr (addProvider demo_paused 1 3)) 3"
  by (simp add: demo_eval)

lemma owner_zero_step:
  "owner s = 0 \<Longrightarrow> sender x \<noteq> 0 \<Longrightarrow> owner (step e s x) = 0"
  by (cases "called x")
     (auto simp: step_def model_defs Let_def split: if_splits option.splits sum.splits prod.splits)

lemma owner_zero_run:
  "owner s = 0 \<Longrightarrow> \<forall>x\<in>set xs. sender x \<noteq> 0 \<Longrightarrow> owner (run e s xs) = 0"
  unfolding run_def
  by (induction xs arbitrary: s) (simp_all add: owner_zero_step)

lemma ownerGated_NotOwner:
  "ownerGated k \<Longrightarrow> a \<noteq> owner s \<Longrightarrow> exec e s a t k = Inl NotOwner"
  by (cases k) (simp_all add: model_defs)

text \<open>
  C10. \<open>transferOwnership\<close> called by the owner succeeds for every new owner, the
  zero address included, and stores it unchecked. Once the owner is the zero address it
  stays so, and every owner-gated call fails with \<open>NotOwner\<close>, whatever happens in
  between (a transaction is never sent by the zero address).
\<close>

theorem transferOwnership_unvalidated:
  assumes "a = owner s"
  shows "transferOwnership s a n =
           Inr (s\<lparr>owner := n, events := events s @ [OwnershipTransferred (owner s) n]\<rparr>)
       \<and> (\<forall>xs b t k. (\<forall>x\<in>set xs. sender x \<noteq> 0) \<and> b \<noteq> 0 \<and> ownerGated k \<longrightarrow>
             owner (run e (projr (transferOwnership s a 0)) xs) = 0
             \<and> exec e (run e (projr (transferOwnership s a 0)) xs) b t k = Inl NotOwner)"
proof -
  have t: "\<And>m. transferOwnership s a m =
      Inr (s\<lparr>owner := m, events := events s @ [OwnershipTransferred (owner s) m]\<rparr>)"
    using assms by (simp add: transferOwnership_def onlyOwner_def)
  have z: "owner (projr (transferOwnership s a 0)) = 0"
    by (simp add: t)
  show ?thesis
    using t z owner_zero_run ownerGated_NotOwner by metis
qed

theorem transferOwnership_unvalidated_witness:
  "1 = owner (constructor 1)
   \<and> owner (projr (transferOwnership (constructor 1) 1 0)) = 0
   \<and> sender \<lparr>sender = 2, timestamp = 50, called = AddProvider 2\<rparr> \<noteq> 0
   \<and> (2::address) \<noteq> 0 \<and> ownerGated OpenBatch
   \<and> exec demo_env (run demo_env (projr (transferOwnership (constructor 1) 1 0))
        [\<lparr>sender = 2, timestamp = 50, called = AddProvider 2\<rparr>]) 2 60 OpenBatch = Inl NotOwner"
proof -
  have a: "1 = owner (constructor 1)"
    by (simp add: constructor_def)
  have h: "\<forall>x\<in>set [\<lparr>sender = 2, timestamp = 50, called = AddProvider 2\<rparr>]. sender x \<noteq> 0"
    by simp
  have z: "owner (projr (transferOwnership (constructor 1) 1 0)) = 0"
    by (simp add: demo_eval)
  have n: "(2::address) \<noteq> 0" "ownerGated OpenBatch"
      "sender \<lparr>sender = 2, timestamp = 50, called = AddProvider 2\<rparr> \<noteq> 0"
    by simp_all
  from transferOwnership_unvalidated[OF a, of 0 demo_env] h n
  have "exec demo_env (run demo_env (projr (transferOwnership (constructor 1) 1 0))
        [\<lparr>sender = 2, timestamp = 50, called = AddProvider 2\<rparr>]) 2 60 OpenBatch = Inl NotOwner"
    by blast
  with z a n show ?thesis
    by blast
qed

section \<open>Decryption bridge\<close>

text \<open>
  C3. For a request id with an unprocessed context and an in-range batch id,
  \<open>myCallback\<close> fails with \<open>StateMismatch\<close> exactly when the hash of the two
  current accumulator handles of that batch (total vibration, then maximum temperature)
  together with the contract's own address differs from the stored \<open>stateHash\<close>. A
  successful request stores that same hash of the handles it sees, so when the stored
  context is the one a request wrote and the two accumulators are what they were at that
  request, \<open>myCallback\<close> does not fail with \<open>StateMismatch\<close>.
\<close>

theorem state_mismatch_iff_digest_differs:
  assumes "\<not> processed (decryptionContexts s r)"
    and "batchId (decryptionContexts s r) \<noteq> 0"
    and "batchId (decryptionContexts s r) \<le> currentBatchId s"
  shows "(myCallback e s r c p = Inl StateMismatch \<longleftrightarrow>
            keccak256_encode e
              [toBytes32 e (encryptedTotalVibration (batches s (batchId (decryptionContexts s r)))),
               toBytes32 e (encryptedMaxTemperature (batches s (batchId (decryptionContexts s r))))]
              (this e)
            \<noteq> stateHash (decryptionContexts s r))
       \<and> (\<forall>s0 a t s1.
             requestBatchDecryption e s0 a t (batchId (decryptionContexts s r)) r = Inr s1
             \<longrightarrow> stateHash (decryptionContexts s1 r) =
                   keccak256_encode e
                     [toBytes32 e (encryptedTotalVibration
                        (batches s0 (batchId (decryptionContexts s r)))),
                      toBytes32 e (encryptedMaxTemperature
                        (batches s0 (batchId (decryptionContexts s r))))]
                     (this e))
       \<and> (\<forall>s0 a t s1.
             requestBatchDecryption e s0 a t (batchId (decryptionContexts s r)) r = Inr s1
             \<and> decryptionContexts s r = decryptionContexts s1 r
             \<and> encryptedTotalVibration (batches s (batchId (decryptionContexts s r))) =
                 encryptedTotalVibration (batches s0 (batchId (decryptionContexts s r)))
             \<and> encryptedMaxTemperature (batches s (batchId (decryptionContexts s r))) =
                 encryptedMaxTemperature (batches s0 (batchId (decryptionContexts s r)))
             \<longrightarrow> myCallback e s r c p \<noteq> Inl StateMismatch)"
proof -
  let ?b = "batchId (decryptionContexts s r)"
  let ?digest = "\<lambda>u. keccak256_encode e
              [toBytes32 e (encryptedTotalVibration (batches u ?b)),
               toBytes32 e (encryptedMaxTemperature (batches u ?b))] (this e)"
  have nb: "\<not> (?b = 0 \<or> ?b > currentBatchId s)"
    using assms(2,3) by (simp add: not_less)
  have iff: "myCallback e s r c p = Inl StateMismatch \<longleftrightarrow>
            ?digest s \<noteq> stateHash (decryptionContexts s r)"
    using assms(1) nb
    by (simp add: myCallback_def hashCiphertexts_def batchHandles_def Let_def
          split: option.splits prod.splits)
  have req: "\<And>s0 a t s1. requestBatchDecryption e s0 a t ?b r = Inr s1 \<Longrightarrow>
      stateHash (decryptionContexts s1 r) = ?digest s0"
    by (auto simp: requestBatchDecryption_def onlyOwner_def whenNotPaused_def
          respectCooldown_def hashCiphertexts_def batchHandles_def Let_def
          split: if_splits option.splits)
  have same: "\<And>s0 a t s1. requestBatchDecryption e s0 a t ?b r = Inr s1 \<Longrightarrow>
      decryptionContexts s r = decryptionContexts s1 r \<Longrightarrow>
      encryptedTotalVibration (batches s ?b) = encryptedTotalVibration (batches s0 ?b) \<Longrightarrow>
      encryptedMaxTemperature (batches s ?b) = encryptedMaxTemperature (batches s0 ?b) \<Longrightarrow>
      myCallback e s r c p \<noteq> Inl StateMismatch"
  proof -
    fix s0 a t s1
    assume rq: "requestBatchDecryption e s0 a t ?b r = Inr s1"
      and cx: "decryptionContexts s r = decryptionContexts s1 r"
      and tv: "encryptedTotalVibration (batches s ?b) = encryptedTotalVibration (batches s0 ?b)"
      and mt: "encryptedMaxTemperature (batches s ?b) = encryptedMaxTemperature (batches s0 ?b)"
    have "stateHash (decryptionContexts s r) = ?digest s0"
      using req[OF rq] cx by simp
    also have "\<dots> = ?digest s"
      using tv mt by simp
    finally show "myCallback e s r c p \<noteq> Inl StateMismatch"
      using iff by simp
  qed
  have p1: "\<forall>s0 a t s1. requestBatchDecryption e s0 a t ?b r = Inr s1
             \<longrightarrow> stateHash (decryptionContexts s1 r) = ?digest s0"
    using req by blast
  have p2: "\<forall>s0 a t s1.
             requestBatchDecryption e s0 a t ?b r = Inr s1
             \<and> decryptionContexts s r = decryptionContexts s1 r
             \<and> encryptedTotalVibration (batches s ?b) = encryptedTotalVibration (batches s0 ?b)
             \<and> encryptedMaxTemperature (batches s ?b) = encryptedMaxTemperature (batches s0 ?b)
             \<longrightarrow> myCallback e s r c p \<noteq> Inl StateMismatch"
    using same by blast
  from iff p1 p2 show ?thesis
    by (intro conjI)
qed

theorem state_mismatch_iff_digest_differs_witness:
  "\<not> processed (decryptionContexts demo_requested 1)
   \<and> batchId (decryptionContexts demo_requested 1) \<noteq> 0
   \<and> batchId (decryptionContexts demo_requested 1) \<le> currentBatchId demo_requested
   \<and> requestBatchDecryption demo_env demo_closed 1 1000 1 1 = Inr demo_requested
   \<and> stateHash (decryptionContexts demo_requested 1) = 8934
   \<and> myCallback demo_env demo_requested 1 demo_cleartexts [1] \<noteq> Inl StateMismatch
   \<and> \<not> processed (decryptionContexts demo_tampered 1)
   \<and> batchId (decryptionContexts demo_tampered 1) \<noteq> 0
   \<and> batchId (decryptionContexts demo_tampered 1) \<le> currentBatchId demo_tampered
   \<and> decryptionContexts demo_tampered 1 = decryptionContexts demo_requested 1
   \<and> encryptedTotalVibration (batches demo_requested 1) = EUint32 8
   \<and> encryptedTotalVibration (batches demo_tampered 1) = EUint32 9
   \<and> myCallback demo_env demo_tampered 1 demo_cleartexts [1] = Inl StateMismatch"
proof -
  have a: "\<not> processed (decryptionContexts demo_requested 1)"
    and b: "batchId (decryptionContexts demo_requested 1) \<noteq> 0"
    and c: "batchId (decryptionContexts demo_requested 1) \<le> currentBatchId demo_requested"
    by (simp_all add: demo_eval)
  have d: "requestBatchDecryption demo_env demo_closed 1 1000 1 1 = Inr demo_requested"
    unfolding demo_requested_def by (simp add: demo_eval)
  have h: "stateHash (decryptionContexts demo_requested 1) = 8934"
    by (simp add: demo_eval)
  have e: "keccak256_encode demo_env
      [toBytes32 demo_env (encryptedTotalVibration
         (batches demo_requested (batchId (decryptionContexts demo_requested 1)))),
       toBytes32 demo_env (encryptedMaxTemperature
         (batches demo_requested (batchId (decryptionContexts demo_requested 1))))]
      (this demo_env) = stateHash (decryptionContexts demo_requested 1)"
    by (simp add: demo_eval)
  have a': "\<not> processed (decryptionContexts demo_tampered 1)"
    and b': "batchId (decryptionContexts demo_tampered 1) \<noteq> 0"
    and c': "batchId (decryptionContexts demo_tampered 1) \<le> currentBatchId demo_tampered"
    and x: "decryptionContexts demo_tampered 1 = decryptionContexts demo_requested 1"
    and v: "encryptedTotalVibration (batches demo_requested 1) = EUint32 8"
    and v': "encryptedTotalVibration (batches demo_tampered 1) = EUint32 9"
    by (simp_all add: demo_tampered_def demo_eval)
  have e': "keccak256_encode demo_env
      [toBytes32 demo_env (encryptedTotalVibration
         (batches demo_tampered (batchId (decryptionContexts demo_tampered 1)))),
       toBytes32 demo_env (encryptedMaxTemperature
         (batches demo_tampered (batchId (decryptionContexts demo_tampered 1))))]
      (this demo_env) \<noteq> stateHash (decryptionContexts demo_tampered 1)"
    by (simp add: demo_tampered_def demo_eval)
  have ok: "myCallback demo_env demo_requested 1 demo_cleartexts [1] \<noteq> Inl StateMismatch"
    using state_mismatch_iff_digest_differs[OF a b c, of demo_env demo_cleartexts "[1]"] e
    by blast
  have bad: "myCallback demo_env demo_tampered 1 demo_cleartexts [1] = Inl StateMismatch"
    using state_mismatch_iff_digest_differs[OF a' b' c', of demo_env demo_cleartexts "[1]"] e'
    by blast
  from a b c d h ok a' b' c' x v v' bad show ?thesis
    by (intro conjI)
qed

text \<open>
  C6. Called by the owner, unpaused and with the cooldown elapsed,
  \<open>requestBatchDecryption\<close> on batch id 0, on an id above \<open>currentBatchId\<close> or on an
  open batch fails with \<open>InvalidBatch\<close>, and the state stays as it was.
\<close>

theorem request_invalid_batch:
  assumes "a = owner s" and "\<not> paused s"
    and "unat (lastDecryptionRequestTime s a) + unat (cooldownSeconds s) \<le> unat t"
    and "b = 0 \<or> b > currentBatchId s \<or> isOpen (batches s b)"
  shows "requestBatchDecryption e s a t b r = Inl InvalidBatch
       \<and> step e s \<lparr>sender = a, timestamp = t, called = RequestBatchDecryption b r\<rparr> = s"
proof -
  have lt: "unat (lastDecryptionRequestTime s a) + unat (cooldownSeconds s) < 2 ^ 256"
    using assms(3) unsigned_less[of t, where 'a = nat] by (simp add: order_le_less_trans)
  then have "unat (lastDecryptionRequestTime s a + cooldownSeconds s) \<le> unat t"
    using assms(3) by (simp add: unat_word_ariths)
  then have "\<not> t < lastDecryptionRequestTime s a + cooldownSeconds s"
    by (simp add: word_less_nat_alt)
  with lt assms(1,2,4) have "requestBatchDecryption e s a t b r = Inl InvalidBatch"
    by (simp add: requestBatchDecryption_def onlyOwner_def whenNotPaused_def
          respectCooldown_def checked_add_def)
  then show ?thesis by (simp add: step_def)
qed

theorem request_invalid_batch_witness:
  "1 = owner demo_open \<and> \<not> paused demo_open
   \<and> unat (lastDecryptionRequestTime demo_open 1) + unat (cooldownSeconds demo_open)
        \<le> unat (1000 :: uint256)
   \<and> isOpen (batches demo_open 1)
   \<and> requestBatchDecryption demo_env demo_open 1 1000 1 1 = Inl InvalidBatch
   \<and> step demo_env demo_open
        \<lparr>sender = 1, timestamp = 1000, called = RequestBatchDecryption 1 1\<rparr> = demo_open"
proof -
  have a: "1 = owner demo_open" and b: "\<not> paused demo_open"
    and c: "unat (lastDecryptionRequestTime demo_open 1) + unat (cooldownSeconds demo_open)
        \<le> unat (1000 :: uint256)"
    and d: "isOpen (batches demo_open 1)"
    by (simp_all add: demo_eval)
  from d have d': "(1::uint256) = 0 \<or> 1 > currentBatchId demo_open \<or> isOpen (batches demo_open 1)"
    by simp
  from request_invalid_batch[OF a b c d', of demo_env 1] a b c d show ?thesis
    by simp
qed

lemma zeroContext_step:
  "decryptionContexts s r = zeroContext \<Longrightarrow> \<not> requests r (called x) \<Longrightarrow>
     decryptionContexts (step e s x) r = zeroContext"
  by (cases "called x")
     (auto simp: step_def model_defs Let_def
           split: if_splits option.splits sum.splits prod.splits)

lemma zeroContext_run:
  "decryptionContexts s r = zeroContext \<Longrightarrow> \<forall>x\<in>set xs. \<not> requests r (called x) \<Longrightarrow>
     decryptionContexts (run e s xs) r = zeroContext"
  unfolding run_def
  by (induction xs arbitrary: s) (simp_all add: zeroContext_step)

text \<open>
  C5, amended. After any sequence of transactions from deployment in which no request was
  answered with id \<open>r\<close>, the context of \<open>r\<close> is the zero context and
  \<open>myCallback\<close> for \<open>r\<close> fails with \<open>InvalidBatch\<close>.
\<close>

theorem callback_without_context:
  assumes "\<forall>x\<in>set xs. \<not> requests r (called x)"
  shows "decryptionContexts (run e (constructor d) xs) r = zeroContext
       \<and> myCallback e (run e (constructor d) xs) r c p = Inl InvalidBatch"
proof -
  have "decryptionContexts (constructor d) r = zeroContext"
    by (simp add: constructor_def)
  from zeroContext_run[OF this assms]
  have z: "decryptionContexts (run e (constructor d) xs) r = zeroContext" .
  then show ?thesis
    by (simp add: myCallback_def zeroContext_def)
qed

theorem callback_without_context_witness:
  "\<not> requests 7 (AddProvider 2) \<and> \<not> requests 7 OpenBatch
   \<and> myCallback demo_env (run demo_env (constructor 1)
        [\<lparr>sender = 1, timestamp = 10, called = AddProvider 2\<rparr>,
         \<lparr>sender = 1, timestamp = 20, called = OpenBatch\<rparr>]) 7 demo_cleartexts [1]
       = Inl InvalidBatch"
proof -
  have h: "\<forall>x\<in>set [\<lparr>sender = 1, timestamp = 10, called = AddProvider 2\<rparr>,
         \<lparr>sender = 1, timestamp = 20, called = OpenBatch\<rparr>]. \<not> requests 7 (called x)"
    by simp
  from callback_without_context[OF h, of demo_env 1 demo_cleartexts "[1]"] show ?thesis
    by simp
qed

theorem callback_without_context_counterexample:
  "decryptionContexts (constructor 1) 7 = zeroContext
   \<and> myCallback demo_env (constructor 1) 7 demo_cleartexts [1] \<noteq> Inl ReplayAttempt"
  by (simp add: demo_eval)

lemma processed_step:
  "processed (decryptionContexts s r) \<Longrightarrow> \<not> requests r (called x) \<Longrightarrow>
     processed (decryptionContexts (step e s x) r)"
  by (cases "called x")
     (auto simp: step_def model_defs Let_def
           split: if_splits option.splits sum.splits prod.splits)

lemma processed_run:
  "processed (decryptionContexts s r) \<Longrightarrow> \<forall>x\<in>set xs. \<not> requests r (called x) \<Longrightarrow>
     processed (decryptionContexts (run e s xs) r)"
  unfolding run_def
  by (induction xs arbitrary: s) (simp_all add: processed_step)

lemma myCallback_success:
  "myCallback e s r c p = Inr s' \<Longrightarrow>
     \<not> processed (decryptionContexts s r) \<and> processed (decryptionContexts s' r)"
  by (auto simp: myCallback_def Let_def split: if_splits option.splits prod.splits)

text \<open>
  C4. A successful \<open>myCallback\<close> for \<open>r\<close> finds the context unprocessed and marks it
  processed. Through any later transactions in which the engine issues no request under
  the id \<open>r\<close> again, the context stays processed, every \<open>myCallback\<close> for \<open>r\<close>
  fails with \<open>ReplayAttempt\<close>, and such a call leaves the state unchanged.
\<close>

theorem complete_at_most_once:
  assumes "myCallback e s r c p = Inr s1"
    and "\<forall>x\<in>set xs. \<not> requests r (called x)"
  shows "\<not> processed (decryptionContexts s r)
       \<and> processed (decryptionContexts (run e s1 xs) r)
       \<and> myCallback e (run e s1 xs) r c' p' = Inl ReplayAttempt
       \<and> step e (run e s1 xs) \<lparr>sender = a, timestamp = t, called = MyCallback r c' p'\<rparr>
           = run e s1 xs"
proof -
  note ok = myCallback_success[OF assms(1)]
  have pr: "processed (decryptionContexts (run e s1 xs) r)"
    using processed_run ok assms(2) by blast
  then have rep: "myCallback e (run e s1 xs) r c' p' = Inl ReplayAttempt"
    by (simp add: myCallback_def)
  then show ?thesis using ok pr by (simp add: step_def)
qed

theorem complete_at_most_once_witness:
  "myCallback demo_env demo_requested 1 demo_cleartexts [1] = Inr demo_completed
   \<and> \<not> requests 1 OpenBatch
   \<and> \<not> requests 1 (RequestBatchDecryption 1 2)
   \<and> processed (decryptionContexts (run demo_env demo_completed
        [\<lparr>sender = 1, timestamp = 3000, called = OpenBatch\<rparr>,
         \<lparr>sender = 1, timestamp = 4000, called = RequestBatchDecryption 1 2\<rparr>]) 1)
   \<and> myCallback demo_env (run demo_env demo_completed
        [\<lparr>sender = 1, timestamp = 3000, called = OpenBatch\<rparr>,
         \<lparr>sender = 1, timestamp = 4000, called = RequestBatchDecryption 1 2\<rparr>])
        1 demo_cleartexts [1] = Inl ReplayAttempt"
proof -
  have g: "myCallback demo_env demo_requested 1 demo_cleartexts [1] = Inr demo_completed"
    unfolding demo_completed_def by (simp add: demo_eval)
  have h: "\<forall>x\<in>set [\<lparr>sender = 1, timestamp = 3000, called = OpenBatch\<rparr>,
         \<lparr>sender = 1, timestamp = 4000, called = RequestBatchDecryption 1 2\<rparr>].
         \<not> requests 1 (called x)"
    by simp
  from complete_at_most_once[OF g h, of demo_cleartexts "[1]"] g show ?thesis
    by simp
qed

text \<open>
  C9, amended. A \<open>myCallback\<close> call that fails reverts: the state, and the context in
  it, stay as they were. The error is \<open>ReplayAttempt\<close> exactly when the context was
  already processed; after any other error the context is still unprocessed, and every
  call that would have succeeded before the failed one still succeeds after it, so a
  failed proof check does not close the request.
\<close>

theorem failed_callback_changes_nothing:
  assumes "myCallback e s r c p = Inl err"
  shows "step e s \<lparr>sender = a, timestamp = t, called = MyCallback r c p\<rparr> = s
       \<and> (err = ReplayAttempt \<longleftrightarrow> processed (decryptionContexts s r))
       \<and> (\<forall>c' p' s'. myCallback e s r c' p' = Inr s' \<longrightarrow>
             myCallback e (step e s \<lparr>sender = a, timestamp = t, called = MyCallback r c p\<rparr>)
               r c' p' = Inr s')"
proof -
  have st: "step e s \<lparr>sender = a, timestamp = t, called = MyCallback r c p\<rparr> = s"
    using assms by (simp add: step_def)
  have rp: "err = ReplayAttempt \<longleftrightarrow> processed (decryptionContexts s r)"
    using assms
    by (auto simp: myCallback_def Let_def split: if_splits option.splits prod.splits)
  show ?thesis using st rp by simp
qed

theorem failed_callback_changes_nothing_witness:
  "myCallback demo_env demo_requested 1 demo_cleartexts [0] = Inl DecryptionFailed
   \<and> step demo_env demo_requested
        \<lparr>sender = 7, timestamp = 2000, called = MyCallback 1 demo_cleartexts [0]\<rparr> = demo_requested
   \<and> \<not> processed (decryptionContexts demo_requested 1)
   \<and> myCallback demo_env (step demo_env demo_requested
        \<lparr>sender = 7, timestamp = 2000, called = MyCallback 1 demo_cleartexts [0]\<rparr>)
        1 demo_cleartexts [1] = Inr demo_completed"
proof -
  have f: "myCallback demo_env demo_requested 1 demo_cleartexts [0] = Inl DecryptionFailed"
    by (simp add: demo_eval)
  have g: "myCallback demo_env demo_requested 1 demo_cleartexts [1] = Inr demo_completed"
    unfolding demo_completed_def by (simp add: demo_eval)
  from failed_callback_changes_nothing[OF f, of 7 2000] g show ?thesis
    using f by simp
qed

theorem replay_failure_counterexample:
  "myCallback demo_env demo_completed 1 demo_cleartexts [1] = Inl ReplayAttempt
   \<and> processed (decryptionContexts demo_completed 1)"
  by (simp add: demo_eval)

end
